theory Spec2Isabelle
  imports Complex_Main "HOL-Library.Word"
begin

unbundle bit_operations_syntax

section \<open>Recursive shadowcasting (package fov): the embedding\<close>

text \<open>
  The model follows \<^verbatim>\<open>fov/fov.go\<close> (type \<^verbatim>\<open>View\<close>). Conventions:
  \<^item> Go's \<^verbatim>\<open>int\<close> is modelled by the mathematical integers \<^typ>\<open>int\<close>; the 64-bit
    wrap-around at magnitudes of \<open>2^63\<close> is outside the model.
  \<^item> \<^verbatim>\<open>float64\<close> slopes are modelled by exact rationals \<^typ>\<open>rat\<close>. The loop variable
    \<^verbatim>\<open>height\<close> is a \<^verbatim>\<open>float64\<close> holding an integral value (it starts at a
    \<^verbatim>\<open>math.Floor\<close> and is incremented by one), so it is an \<^typ>\<open>int\<close> here.
  \<^item> The grid is the read-only interface \<^verbatim>\<open>GridMap\<close>: a record of pure functions.
  \<^item> The visible set is keyed, as in the source, by the string
    \<^verbatim>\<open>fmt.Sprintf("%d,%d", x, y)\<close>.
  \<^item> Calls into the grid are effects: the scan threads, next to the \<^verbatim>\<open>View\<close>, the list of
    the grid queries it has issued (newest first).
  \<^item> The file also holds an earlier copy of the algorithm (type \<^verbatim>\<open>MapFOV\<close>, key format
    \<^verbatim>\<open>"%d%d"\<close>); it is not modelled.
\<close>

subsection \<open>The grid interface and the view\<close>

record GridMap =
  Index :: "int \<Rightarrow> int \<Rightarrow> int \<times> int"
  InBounds :: "int \<Rightarrow> int \<Rightarrow> bool"
  IsOpaque :: "int \<Rightarrow> int \<Rightarrow> bool"

type_synonym gridSet = "string set"

record View =
  Visible :: gridSet

text \<open>\<^verbatim>\<open>New\<close> returns a view whose map is nil: no key is present.\<close>

definition New :: View where
  "New = \<lparr>Visible = {}\<rparr>"

datatype query = AskInBounds int int | AskIsOpaque int int

type_synonym run = "View \<times> query list"

subsection \<open>Formatting the key: \<^verbatim>\<open>fmt.Sprintf("%d,%d", x, y)\<close>\<close>

definition digit_char :: "nat \<Rightarrow> char" where
  "digit_char d = char_of (48 + d)"

function digits :: "nat \<Rightarrow> string" where
  "digits n = (if n < 10 then [digit_char n] else digits (n div 10) @ [digit_char (n mod 10)])"
  by pat_completeness auto
termination
  by (relation "measure (\<lambda>n. n)") auto

text \<open>The verb \<^verbatim>\<open>%d\<close>: a minus sign for a negative number, then the decimal digits.\<close>

definition fmt_d :: "int \<Rightarrow> string" where
  "fmt_d i = (if i < 0 then CHR ''-'' # digits (nat (- i)) else digits (nat i))"

definition Sprintf_d_comma_d :: "int \<Rightarrow> int \<Rightarrow> string" where
  "Sprintf_d_comma_d x y = fmt_d x @ CHR '','' # fmt_d y"

subsection \<open>The octant transform and the distance\<close>

text \<open>
  \<^verbatim>\<open>distHeightXY\<close>: in Go \<^verbatim>\<open>oct&0x1 > 0\<close> parses as \<^verbatim>\<open>(oct&0x1) > 0\<close>.
\<close>

definition distHeightXY :: "int \<Rightarrow> int \<Rightarrow> int \<Rightarrow> int \<Rightarrow> int \<Rightarrow> int \<times> int" where
  "distHeightXY px py d h oct =
     (let d1 = (if (oct AND 1) > 0 then - d else d);
          h1 = (if (oct AND 2) > 0 then - h else h)
      in if (oct AND 4) > 0 then (px + h1, py + d1) else (px + d1, py + h1))"

text \<open>
  The integer square root, computed without reals so that \<^verbatim>\<open>distTo\<close> can be evaluated;
  lemma \<open>isqrt_floor_sqrt\<close> below shows that it is the truncated real square root that
  \<^verbatim>\<open>int(math.Sqrt(...))\<close> computes.
\<close>

fun isqrt :: "nat \<Rightarrow> nat" where
  "isqrt 0 = 0"
| "isqrt (Suc n) = (let r = isqrt n in if (r + 1) * (r + 1) \<le> Suc n then r + 1 else r)"

definition distTo :: "int \<Rightarrow> int \<Rightarrow> int \<Rightarrow> int \<Rightarrow> int" where
  "distTo x1 y1 x2 y2 =
     (let vx = (x1 - x2) ^ 2; vy = (y1 - y2) ^ 2 in int (isqrt (nat (vx + vy))))"

subsection \<open>The scan\<close>

definition ask :: "query \<Rightarrow> run \<Rightarrow> run" where
  "ask q s = (fst s, q # snd s)"

text \<open>\<^verbatim>\<open>v.Visible[fmt.Sprintf("%d,%d", mapx, mapy)] = struct{}{}\<close>\<close>

definition mark :: "int \<Rightarrow> int \<Rightarrow> run \<Rightarrow> run" where
  "mark x y s = ((fst s)\<lparr>Visible := insert (Sprintf_d_comma_d x y) (Visible (fst s))\<rparr>, snd s)"

text \<open>
  \<^verbatim>\<open>fov\<close> is the function of the source; \<^verbatim>\<open>fov_loop\<close> is its \<^verbatim>\<open>for\<close> loop, from the
  current \<^verbatim>\<open>height\<close> on, with the loop's mutable variables \<^verbatim>\<open>lowSlope\<close> and
  \<^verbatim>\<open>inGap\<close> as arguments. Both conditions of the loop body evaluate
  \<^verbatim>\<open>grid.InBounds\<close> first and, by the short circuit of \<^verbatim>\<open>&&\<close>, the second operand only
  when it holds.
\<close>

function fov :: "GridMap \<Rightarrow> int \<Rightarrow> int \<Rightarrow> int \<Rightarrow> rat \<Rightarrow> rat \<Rightarrow> int \<Rightarrow> int \<Rightarrow> run \<Rightarrow> run"
  and fov_loop ::
    "GridMap \<Rightarrow> int \<Rightarrow> int \<Rightarrow> int \<Rightarrow> rat \<Rightarrow> rat \<Rightarrow> int \<Rightarrow> int \<Rightarrow> int \<Rightarrow> int \<Rightarrow> bool \<Rightarrow> run \<Rightarrow> run"
where
  "fov grid px py distance lowSlope highSlope oct rad s =
     (if distance > rad then s
      else fov_loop grid px py distance lowSlope highSlope oct rad
             \<lfloor>lowSlope * of_int distance + 1 / 2\<rfloor> \<lfloor>highSlope * of_int distance + 1 / 2\<rfloor> False s)"
| "fov_loop grid px py distance lowSlope highSlope oct rad height high inGap s =
     (if height \<le> high then
        (let mapx = fst (distHeightXY px py distance height oct);
             mapy = snd (distHeightXY px py distance height oct);
             s1 = ask (AskInBounds mapx mapy) s;
             s2 = (if InBounds grid mapx mapy \<and> distTo px py mapx mapy < rad
                   then mark mapx mapy s1 else s1);
             s3 = ask (AskInBounds mapx mapy) s2;
             s4 = (if InBounds grid mapx mapy then ask (AskIsOpaque mapx mapy) s3 else s3)
         in if InBounds grid mapx mapy \<and> \<not> IsOpaque grid mapx mapy then
              fov_loop grid px py distance ((of_int height + 1 / 2) / of_int distance) highSlope oct rad
                (height + 1) high False
                (if inGap
                 then fov grid px py (distance + 1) lowSlope ((of_int height - 1 / 2) / of_int distance)
                        oct rad s4
                 else s4)
            else
              fov_loop grid px py distance lowSlope highSlope oct rad (height + 1) high True
                (if height = high
                 then fov grid px py (distance + 1) lowSlope highSlope oct rad s4
                 else s4))
      else s)"
  by pat_completeness auto
termination
  by (relation "measures
        [\<lambda>a. case a of
            Inl (grid, px, py, distance, lowSlope, highSlope, oct, rad, s) \<Rightarrow>
              2 * nat (rad + 1 - distance)
          | Inr (grid, px, py, distance, lowSlope, highSlope, oct, rad, height, high, inGap, s) \<Rightarrow>
              2 * nat (rad - distance) + 1,
         \<lambda>a. case a of
            Inl _ \<Rightarrow> 0
          | Inr (grid, px, py, distance, lowSlope, highSlope, oct, rad, height, high, inGap, s) \<Rightarrow>
              nat (high + 1 - height)]") auto

subsection \<open>The public operations\<close>

text \<open>
  \<^verbatim>\<open>Compute\<close> replaces the map by a fresh one holding the observer's key and runs the
  eight octant scans, \<^verbatim>\<open>i = 1, ..., 8\<close>. \<open>Compute_run\<close> also returns the grid queries of
  this call.
\<close>

definition Compute_run :: "View \<Rightarrow> GridMap \<Rightarrow> int \<Rightarrow> int \<Rightarrow> int \<Rightarrow> run" where
  "Compute_run v grid px py r =
     foldl (\<lambda>s i. fov grid px py 1 0 1 i r s)
       (mark px py (v\<lparr>Visible := {}\<rparr>, [])) [1, 2, 3, 4, 5, 6, 7, 8]"

definition Compute :: "View \<Rightarrow> GridMap \<Rightarrow> int \<Rightarrow> int \<Rightarrow> int \<Rightarrow> View" where
  "Compute v grid px py r = fst (Compute_run v grid px py r)"

definition IsVisible :: "View \<Rightarrow> int \<Rightarrow> int \<Rightarrow> bool" where
  "IsVisible v x y = (if Sprintf_d_comma_d x y \<in> Visible v then True else False)"

subsection \<open>The scan with a bound on the depth of the recursion\<close>

text \<open>
  The same two functions with a counter of the stack frames that \<^verbatim>\<open>fov\<close> may still open:
  a call that passes the base case \<^verbatim>\<open>dist > rad\<close> uses one frame, and the calls made from
  its loop run with one frame less. \<open>None\<close> means that the bound was exceeded.
\<close>

function fov_fuel ::
    "nat \<Rightarrow> GridMap \<Rightarrow> int \<Rightarrow> int \<Rightarrow> int \<Rightarrow> rat \<Rightarrow> rat \<Rightarrow> int \<Rightarrow> int \<Rightarrow> run \<Rightarrow> run option"
  and fov_loop_fuel ::
    "nat \<Rightarrow> GridMap \<Rightarrow> int \<Rightarrow> int \<Rightarrow> int \<Rightarrow> rat \<Rightarrow> rat \<Rightarrow> int \<Rightarrow> int \<Rightarrow> int \<Rightarrow> int \<Rightarrow> bool \<Rightarrow> run
       \<Rightarrow> run option"
where
  "fov_fuel 0 grid px py distance lowSlope highSlope oct rad s =
     (if distance > rad then Some s else None)"
| "fov_fuel (Suc m) grid px py distance lowSlope highSlope oct rad s =
     (if distance > rad then Some s
      else fov_loop_fuel m grid px py distance lowSlope highSlope oct rad
             \<lfloor>lowSlope * of_int distance + 1 / 2\<rfloor> \<lfloor>highSlope * of_int distance + 1 / 2\<rfloor> False s)"
| "fov_loop_fuel m grid px py distance lowSlope highSlope oct rad height high inGap s =
     (if height \<le> high then
        (let mapx = fst (distHeightXY px py distance height oct);
             mapy = snd (distHeightXY px py distance height oct);
             s1 = ask (AskInBounds mapx mapy) s;
             s2 = (if InBounds grid mapx mapy \<and> distTo px py mapx mapy < rad
                   then mark mapx mapy s1 else s1);
             s3 = ask (AskInBounds mapx mapy) s2;
             s4 = (if InBounds grid mapx mapy then ask (AskIsOpaque mapx mapy) s3 else s3)
         in if InBounds grid mapx mapy \<and> \<not> IsOpaque grid mapx mapy then
              (case (if inGap
                     then fov_fuel m grid px py (distance + 1) lowSlope
                            ((of_int height - 1 / 2) / of_int distance) oct rad s4
                     else Some s4) of
                 None \<Rightarrow> None
               | Some s5 \<Rightarrow>
                   fov_loop_fuel m grid px py distance ((of_int height + 1 / 2) / of_int distance)
                     highSlope oct rad (height + 1) high False s5)
            else
              (case (if height = high
                     then fov_fuel m grid px py (distance + 1) lowSlope highSlope oct rad s4
                     else Some s4) of
                 None \<Rightarrow> None
               | Some s5 \<Rightarrow>
                   fov_loop_fuel m grid px py distance lowSlope highSlope oct rad
                     (height + 1) high True s5))
      else Some s)"
  by pat_completeness auto
termination
  by (relation "measures
        [\<lambda>a. case a of
            Inl (n, grid, px, py, distance, lowSlope, highSlope, oct, rad, s) \<Rightarrow> 2 * n
          | Inr (m, grid, px, py, distance, lowSlope, highSlope, oct, rad, height, high, inGap, s) \<Rightarrow>
              2 * m + 1,
         \<lambda>a. case a of
            Inl _ \<Rightarrow> 0
          | Inr (m, grid, px, py, distance, lowSlope, highSlope, oct, rad, height, high, inGap, s) \<Rightarrow>
              nat (high + 1 - height)]") auto

text \<open>The eight octant scans of \<^verbatim>\<open>Compute\<close>, each with \<open>n\<close> frames.\<close>

fun octants_fuel :: "nat \<Rightarrow> GridMap \<Rightarrow> int \<Rightarrow> int \<Rightarrow> int \<Rightarrow> int list \<Rightarrow> run \<Rightarrow> run option" where
  "octants_fuel n grid px py r [] s = Some s"
| "octants_fuel n grid px py r (i # is) s =
     (case fov_fuel n grid px py 1 0 1 i r s of
        None \<Rightarrow> None
      | Some s' \<Rightarrow> octants_fuel n grid px py r is s')"

definition Compute_run_fuel :: "nat \<Rightarrow> View \<Rightarrow> GridMap \<Rightarrow> int \<Rightarrow> int \<Rightarrow> int \<Rightarrow> run option" where
  "Compute_run_fuel n v grid px py r =
     octants_fuel n grid px py r [1, 2, 3, 4, 5, 6, 7, 8] (mark px py (v\<lparr>Visible := {}\<rparr>, []))"

subsection \<open>Auxiliary notions for the proofs\<close>

text \<open>The run after the two conditions of one pass through the loop body.\<close>

definition visited :: "GridMap \<Rightarrow> int \<Rightarrow> int \<Rightarrow> int \<Rightarrow> int \<Rightarrow> int \<Rightarrow> run \<Rightarrow> run" where
  "visited grid px py rad mapx mapy s =
     (let s1 = ask (AskInBounds mapx mapy) s;
          s2 = (if InBounds grid mapx mapy \<and> distTo px py mapx mapy < rad
                then mark mapx mapy s1 else s1);
          s3 = ask (AskInBounds mapx mapy) s2
      in if InBounds grid mapx mapy then ask (AskIsOpaque mapx mapy) s3 else s3)"

text \<open>
  A log of queries (newest first) is guarded when every \<^verbatim>\<open>IsOpaque\<close> query comes directly
  after an \<^verbatim>\<open>InBounds\<close> query on the same coordinate, and \<^verbatim>\<open>InBounds\<close> holds there.
\<close>

fun guarded :: "GridMap \<Rightarrow> query list \<Rightarrow> bool" where
  "guarded grid [] = True"
| "guarded grid (AskInBounds x y # qs) = guarded grid qs"
| "guarded grid (AskIsOpaque x y # AskInBounds x' y' # qs) =
     (x' = x \<and> y' = y \<and> InBounds grid x y \<and> guarded grid qs)"
| "guarded grid (AskIsOpaque x y # qs) = False"

text \<open>Every key of the set is the observer's or that of an in-bounds tile within the radius.\<close>

definition marks_ok :: "GridMap \<Rightarrow> int \<Rightarrow> int \<Rightarrow> int \<Rightarrow> run \<Rightarrow> bool" where
  "marks_ok grid px py rad s =
     (\<forall>k \<in> Visible (fst s). k = Sprintf_d_comma_d px py \<or>
        (\<exists>x y. k = Sprintf_d_comma_d x y \<and> InBounds grid x y \<and> distTo px py x y < rad))"

definition is_digit :: "char \<Rightarrow> bool" where
  "is_digit c = (48 \<le> (of_char c :: nat) \<and> (of_char c :: nat) \<le> 57)"

definition undigits :: "string \<Rightarrow> nat" where
  "undigits cs = foldl (\<lambda>a c. 10 * a + (of_char c - 48)) 0 cs"

text \<open>
  The octant transform in the words of the specification: bit 0 of the octant id negates the
  distance, bit 1 negates the height, bit 2 swaps the axes.
\<close>

definition octant_transform_spec :: "int \<Rightarrow> int \<Rightarrow> int \<Rightarrow> int \<Rightarrow> int \<Rightarrow> int \<times> int" where
  "octant_transform_spec px py d h oct =
     (let d' = (if bit oct 0 then - d else d);
          h' = (if bit oct 1 then - h else h)
      in if bit oct 2 then (px + h', py + d') else (px + d', py + h'))"

subsection \<open>Grids used as concrete inputs\<close>

text \<open>The 7 by 7 grid of the scenarios (coordinates 0 to 6) with the given opaque cells.\<close>

definition grid7 :: "(int \<times> int) list \<Rightarrow> GridMap" where
  "grid7 walls =
     \<lparr>Index = (\<lambda>x y. (x, y)),
      InBounds = (\<lambda>x y. 0 \<le> x \<and> x \<le> 6 \<and> 0 \<le> y \<and> y \<le> 6),
      IsOpaque = (\<lambda>x y. (x, y) \<in> set walls)\<rparr>"

text \<open>A grid without bounds and without opaque cells, and a grid with no cell in bounds.\<close>

definition open_grid :: GridMap where
  "open_grid = \<lparr>Index = (\<lambda>x y. (x, y)), InBounds = (\<lambda>x y. True), IsOpaque = (\<lambda>x y. False)\<rparr>"

definition void_grid :: GridMap where
  "void_grid = \<lparr>Index = (\<lambda>x y. (x, y)), InBounds = (\<lambda>x y. False), IsOpaque = (\<lambda>x y. False)\<rparr>"

text \<open>A grid without bounds in which every cell is opaque.\<close>

definition solid_grid :: GridMap where
  "solid_grid = \<lparr>Index = (\<lambda>x y. (x, y)), InBounds = (\<lambda>x y. True), IsOpaque = (\<lambda>x y. True)\<rparr>"

section \<open>Basic facts\<close>

declare fov.simps [simp del] fov_loop.simps [simp del] digits.simps [simp del]
declare fov_fuel.simps [simp del] fov_loop_fuel.simps [simp del]

subsection \<open>The key determines the coordinate\<close>

lemma of_char_digit_char: "d < 10 \<Longrightarrow> (of_char (digit_char d) :: nat) = 48 + d"
  by (simp add: digit_char_def)

lemma is_digit_digit_char: "d < 10 \<Longrightarrow> is_digit (digit_char d)"
  by (simp add: is_digit_def of_char_digit_char)

lemma digits_all_digit: "\<forall>c \<in> set (digits n). is_digit c"
proof (induction n rule: digits.induct)
  case (1 n)
  show ?case
  proof (cases "n < 10")
    case True
    then show ?thesis by (subst digits.simps) (simp add: is_digit_digit_char)
  next
    case False
    with 1 show ?thesis by (subst digits.simps) (simp add: is_digit_digit_char)
  qed
qed

lemma undigits_snoc: "undigits (cs @ [c]) = 10 * undigits cs + (of_char c - 48)"
  by (simp add: undigits_def)

lemma undigits_digits: "undigits (digits n) = n"
proof (induction n rule: digits.induct)
  case (1 n)
  show ?case
  proof (cases "n < 10")
    case True
    then show ?thesis by (subst digits.simps) (simp add: undigits_def of_char_digit_char)
  next
    case False
    with 1 show ?thesis
      by (subst digits.simps) (simp add: undigits_snoc of_char_digit_char)
  qed
qed

lemma digits_inj: "digits m = digits n \<Longrightarrow> m = n"
  by (metis undigits_digits)

lemma digits_not_Nil: "digits n \<noteq> []"
  by (subst digits.simps) simp

lemma not_digit_minus: "\<not> is_digit CHR ''-''" and not_digit_comma: "\<not> is_digit CHR '',''"
  by (simp_all add: is_digit_def)

lemma minus_notin_digits: "CHR ''-'' \<notin> set (digits n)"
  using digits_all_digit not_digit_minus by blast

lemma comma_notin_digits: "CHR '','' \<notin> set (digits n)"
  using digits_all_digit not_digit_comma by blast

lemma comma_notin_fmt_d: "CHR '','' \<notin> set (fmt_d i)"
  by (simp add: fmt_d_def comma_notin_digits)

lemma fmt_d_inj: "fmt_d i = fmt_d j \<Longrightarrow> i = j"
proof -
  assume eq: "fmt_d i = fmt_d j"
  have hd_digits: "\<And>n. hd (digits n) \<noteq> CHR ''-''"
    using minus_notin_digits digits_not_Nil by (metis list.set_sel(1))
  show "i = j"
  proof (cases "i < 0")
    case True
    show ?thesis
    proof (cases "j < 0")
      case True
      with \<open>i < 0\<close> eq have "digits (nat (- i)) = digits (nat (- j))" by (simp add: fmt_d_def)
      then have "nat (- i) = nat (- j)" by (rule digits_inj)
      with True \<open>i < 0\<close> show ?thesis by simp
    next
      case False
      with \<open>i < 0\<close> eq have "CHR ''-'' # digits (nat (- i)) = digits (nat j)"
        by (simp add: fmt_d_def)
      then have "hd (digits (nat j)) = CHR ''-''" by (metis list.sel(1))
      with hd_digits show ?thesis by blast
    qed
  next
    case False
    show ?thesis
    proof (cases "j < 0")
      case True
      with \<open>\<not> i < 0\<close> eq have "digits (nat i) = CHR ''-'' # digits (nat (- j))"
        by (simp add: fmt_d_def)
      then have "hd (digits (nat i)) = CHR ''-''" by (metis list.sel(1))
      with hd_digits show ?thesis by blast
    next
      case False
      with \<open>\<not> i < 0\<close> eq have "digits (nat i) = digits (nat j)" by (simp add: fmt_d_def)
      then have "nat i = nat j" by (rule digits_inj)
      with False \<open>\<not> i < 0\<close> show ?thesis by simp
    qed
  qed
qed

lemma split_at_sep:
  "c \<notin> set as \<Longrightarrow> c \<notin> set bs \<Longrightarrow> as @ c # xs = bs @ c # ys \<Longrightarrow> as = bs \<and> xs = ys"
proof (induction as arbitrary: bs)
  case Nil
  then show ?case by (cases bs) auto
next
  case (Cons a as)
  then show ?case by (cases bs) auto
qed

lemma Sprintf_d_comma_d_inj:
  "Sprintf_d_comma_d x y = Sprintf_d_comma_d x' y' \<longleftrightarrow> x = x' \<and> y = y'"
proof
  assume "Sprintf_d_comma_d x y = Sprintf_d_comma_d x' y'"
  then have "fmt_d x = fmt_d x' \<and> fmt_d y = fmt_d y'"
    unfolding Sprintf_d_comma_d_def
    by (intro split_at_sep [of "CHR '',''"] comma_notin_fmt_d)
  then show "x = x' \<and> y = y'" by (simp add: fmt_d_inj)
qed simp

subsection \<open>The integer square root is the truncated real square root\<close>

lemma isqrt_bounds: "isqrt n * isqrt n \<le> n \<and> n < (isqrt n + 1) * (isqrt n + 1)"
proof (induction n)
  case 0
  show ?case by simp
next
  case (Suc n)
  then show ?case by (auto simp: Let_def)
qed

lemma isqrt_floor_sqrt: "int (isqrt n) = \<lfloor>sqrt (real n)\<rfloor>"
proof -
  have lo: "real (isqrt n) \<le> sqrt (real n)"
  proof (rule real_le_rsqrt)
    have "isqrt n * isqrt n \<le> n" using isqrt_bounds by blast
    then have "real (isqrt n * isqrt n) \<le> real n" by (simp only: of_nat_le_iff)
    then show "(real (isqrt n))\<^sup>2 \<le> real n" by (simp add: power2_eq_square)
  qed
  have hi: "sqrt (real n) < real (isqrt n) + 1"
  proof (rule real_less_lsqrt)
    have "n < (isqrt n + 1) * (isqrt n + 1)" using isqrt_bounds by blast
    then have "real n < real ((isqrt n + 1) * (isqrt n + 1))" by (simp only: of_nat_less_iff)
    then show "real n < (real (isqrt n) + 1)\<^sup>2" by (simp add: power2_eq_square algebra_simps)
  qed simp
  from lo hi have "\<lfloor>sqrt (real n)\<rfloor> = int (isqrt n)"
    by (intro floor_unique) simp_all
  then show ?thesis by simp
qed

lemma distTo_floor_sqrt:
  "distTo x1 y1 x2 y2 = \<lfloor>sqrt (real_of_int ((x1 - x2)\<^sup>2 + (y1 - y2)\<^sup>2))\<rfloor>"
proof -
  have "0 \<le> (x1 - x2)\<^sup>2 + (y1 - y2)\<^sup>2" by simp
  then have "real (nat ((x1 - x2)\<^sup>2 + (y1 - y2)\<^sup>2)) = real_of_int ((x1 - x2)\<^sup>2 + (y1 - y2)\<^sup>2)"
    by (simp only: of_nat_nat)
  then show ?thesis by (simp add: distTo_def Let_def isqrt_floor_sqrt del: of_int_add of_int_power)
qed

subsection \<open>Unfolding the loop; invariants of the scan\<close>

lemma fov_loop_unfold:
  "fov_loop grid px py distance lowSlope highSlope oct rad height high inGap s =
     (if height \<le> high then
        (let mapx = fst (distHeightXY px py distance height oct);
             mapy = snd (distHeightXY px py distance height oct);
             s4 = visited grid px py rad mapx mapy s
         in if InBounds grid mapx mapy \<and> \<not> IsOpaque grid mapx mapy then
              fov_loop grid px py distance ((of_int height + 1 / 2) / of_int distance) highSlope
                oct rad (height + 1) high False
                (if inGap
                 then fov grid px py (distance + 1) lowSlope
                        ((of_int height - 1 / 2) / of_int distance) oct rad s4
                 else s4)
            else
              fov_loop grid px py distance lowSlope highSlope oct rad (height + 1) high True
                (if height = high
                 then fov grid px py (distance + 1) lowSlope highSlope oct rad s4
                 else s4))
      else s)"
  by (subst fov_loop.simps) (simp only: visited_def Let_def)

lemma fov_loop_done:
  "\<not> height \<le> high \<Longrightarrow>
   fov_loop grid px py distance lowSlope highSlope oct rad height high inGap s = s"
  by (subst fov_loop_unfold) simp

lemma fov_loop_clear:
  assumes "height \<le> high"
    and "InBounds grid (fst (distHeightXY px py distance height oct))
           (snd (distHeightXY px py distance height oct)) \<and>
         \<not> IsOpaque grid (fst (distHeightXY px py distance height oct))
           (snd (distHeightXY px py distance height oct))"
  shows "fov_loop grid px py distance lowSlope highSlope oct rad height high inGap s =
         fov_loop grid px py distance ((of_int height + 1 / 2) / of_int distance) highSlope
           oct rad (height + 1) high False
           (if inGap
            then fov grid px py (distance + 1) lowSlope
                   ((of_int height - 1 / 2) / of_int distance) oct rad
                   (visited grid px py rad (fst (distHeightXY px py distance height oct))
                      (snd (distHeightXY px py distance height oct)) s)
            else visited grid px py rad (fst (distHeightXY px py distance height oct))
                   (snd (distHeightXY px py distance height oct)) s)"
  using assms by (subst fov_loop_unfold) (simp add: Let_def)

lemma fov_loop_blocked:
  assumes "height \<le> high"
    and "\<not> (InBounds grid (fst (distHeightXY px py distance height oct))
              (snd (distHeightXY px py distance height oct)) \<and>
            \<not> IsOpaque grid (fst (distHeightXY px py distance height oct))
              (snd (distHeightXY px py distance height oct)))"
  shows "fov_loop grid px py distance lowSlope highSlope oct rad height high inGap s =
         fov_loop grid px py distance lowSlope highSlope oct rad (height + 1) high True
           (if height = high
            then fov grid px py (distance + 1) lowSlope highSlope oct rad
                   (visited grid px py rad (fst (distHeightXY px py distance height oct))
                      (snd (distHeightXY px py distance height oct)) s)
            else visited grid px py rad (fst (distHeightXY px py distance height oct))
                   (snd (distHeightXY px py distance height oct)) s)"
  using assms by (subst fov_loop_unfold) (auto simp add: Let_def)

lemma fov_preserves:
  fixes I :: "run \<Rightarrow> bool"
  assumes step: "\<And>x y s. I s \<Longrightarrow> I (visited grid px py rad x y s)"
  shows "I s \<Longrightarrow> I (fov grid px py distance lowSlope highSlope oct rad s)"
    and "I s \<Longrightarrow>
         I (fov_loop grid px py distance lowSlope highSlope oct rad height high inGap s)"
  using step
proof (induction grid px py distance lowSlope highSlope oct rad s
         and grid px py distance lowSlope highSlope oct rad height high inGap s
       rule: fov_fov_loop.induct)
  case (1 grid px py distance lowSlope highSlope oct rad s)
  then show ?case by (subst fov.simps) simp
next
  case (2 grid px py distance lowSlope highSlope oct rad height high inGap s)
  let ?x = "fst (distHeightXY px py distance height oct)"
  let ?y = "snd (distHeightXY px py distance height oct)"
  let ?s4 = "visited grid px py rad ?x ?y s"
  note st = "2.prems"(2)
  have s4: "I ?s4" using "2.prems" by blast
  show ?case
  proof (cases "height \<le> high")
    case False
    then show ?thesis using "2.prems"(1) by (simp add: fov_loop_done)
  next
    case le: True
    show ?thesis
    proof (cases "InBounds grid ?x ?y \<and> \<not> IsOpaque grid ?x ?y")
      case clear: True
      have a: "inGap \<Longrightarrow> I (fov grid px py (distance + 1) lowSlope
                 ((of_int height - 1 / 2) / of_int distance) oct rad ?s4)"
        using "2.IH"(1) [OF le refl refl refl refl refl refl clear _ _ st] s4
        unfolding visited_def Let_def by blast
      have "I (if inGap then fov grid px py (distance + 1) lowSlope
                 ((of_int height - 1 / 2) / of_int distance) oct rad ?s4 else ?s4)"
        using a s4 by simp
      then have "I (fov_loop grid px py distance ((of_int height + 1 / 2) / of_int distance)
                 highSlope oct rad (height + 1) high False
                 (if inGap then fov grid px py (distance + 1) lowSlope
                 ((of_int height - 1 / 2) / of_int distance) oct rad ?s4 else ?s4))"
        using "2.IH"(2) [OF le refl refl refl refl refl refl clear _ st]
        unfolding visited_def Let_def by blast
      then show ?thesis by (simp only: fov_loop_clear [OF le clear])
    next
      case blocked: False
      have a: "height = high \<Longrightarrow>
                 I (fov grid px py (distance + 1) lowSlope highSlope oct rad ?s4)"
        using "2.IH"(3) [OF le refl refl refl refl refl refl blocked _ _ st] s4
        unfolding visited_def Let_def by blast
      have "I (if height = high
               then fov grid px py (distance + 1) lowSlope highSlope oct rad ?s4 else ?s4)"
        using a s4 by simp
      then have "I (fov_loop grid px py distance lowSlope highSlope oct rad (height + 1) high True
                 (if height = high
                  then fov grid px py (distance + 1) lowSlope highSlope oct rad ?s4 else ?s4))"
        using "2.IH"(4) [OF le refl refl refl refl refl refl blocked _ st]
        unfolding visited_def Let_def by blast
      then show ?thesis by (simp only: fov_loop_blocked [OF le blocked])
    qed
  qed
qed

lemma Visible_ask [simp]: "Visible (fst (ask q s)) = Visible (fst s)"
  by (simp add: ask_def)

lemma snd_ask [simp]: "snd (ask q s) = q # snd s"
  by (simp add: ask_def)

lemma Visible_mark [simp]:
  "Visible (fst (mark x y s)) = insert (Sprintf_d_comma_d x y) (Visible (fst s))"
  by (simp add: mark_def)

lemma snd_mark [simp]: "snd (mark x y s) = snd s"
  by (simp add: mark_def)

lemma Visible_visited:
  "Visible (fst (visited grid px py rad x y s)) =
     (if InBounds grid x y \<and> distTo px py x y < rad
      then insert (Sprintf_d_comma_d x y) (Visible (fst s)) else Visible (fst s))"
  by (simp add: visited_def Let_def)

lemma snd_visited:
  "snd (visited grid px py rad x y s) =
     (if InBounds grid x y then [AskIsOpaque x y, AskInBounds x y, AskInBounds x y] @ snd s
      else [AskInBounds x y, AskInBounds x y] @ snd s)"
  by (simp add: visited_def Let_def)

lemma foldl_preserves:
  assumes "\<And>s i. I s \<Longrightarrow> I (f s i)"
  shows "I s \<Longrightarrow> I (foldl f s xs)"
  using assms by (induction xs arbitrary: s) simp_all

lemma Compute_run_preserves:
  assumes step: "\<And>x y s. I s \<Longrightarrow> I (visited grid px py r x y s)"
    and init: "I (mark px py (v\<lparr>Visible := {}\<rparr>, []))"
  shows "I (Compute_run v grid px py r)"
proof -
  have "I (foldl (\<lambda>s i. fov grid px py 1 0 1 i r s) (mark px py (v\<lparr>Visible := {}\<rparr>, []))
          [1, 2, 3, 4, 5, 6, 7, 8])"
  proof (rule foldl_preserves [where I = I])
    fix s :: run and i :: int
    assume "I s"
    with step show "I (fov grid px py 1 0 1 i r s)"
      by (rule fov_preserves(1) [where I = I and grid = grid and px = px and py = py and rad = r])
  qed (rule init)
  then show ?thesis by (simp only: Compute_run_def)
qed

lemma observer_kept:
  "Sprintf_d_comma_d px py \<in> Visible (fst (Compute_run v grid px py r))"
  by (rule Compute_run_preserves [where I = "\<lambda>s. Sprintf_d_comma_d px py \<in> Visible (fst s)"])
     (simp_all add: Visible_visited)

lemma Compute_marks_ok: "marks_ok grid px py r (Compute_run v grid px py r)"
proof (rule Compute_run_preserves)
  fix x y s
  assume "marks_ok grid px py r s"
  then show "marks_ok grid px py r (visited grid px py r x y s)"
    unfolding marks_ok_def Visible_visited by auto
next
  show "marks_ok grid px py r (mark px py (v\<lparr>Visible := {}\<rparr>, []))"
    by (simp add: marks_ok_def)
qed

lemma visible_cases:
  assumes "IsVisible (Compute v grid px py r) x y"
  shows "(x = px \<and> y = py) \<or> (InBounds grid x y \<and> distTo px py x y < r)"
proof -
  from assms have "Sprintf_d_comma_d x y \<in> Visible (fst (Compute_run v grid px py r))"
    by (simp add: IsVisible_def Compute_def split: if_splits)
  with Compute_marks_ok [of grid px py r v]
  have "Sprintf_d_comma_d x y = Sprintf_d_comma_d px py \<or>
        (\<exists>x' y'. Sprintf_d_comma_d x y = Sprintf_d_comma_d x' y' \<and> InBounds grid x' y' \<and>
           distTo px py x' y' < r)"
    unfolding marks_ok_def by blast
  then show ?thesis by (auto simp: Sprintf_d_comma_d_inj)
qed

lemma guarded_visited: "guarded grid (snd s) \<Longrightarrow> guarded grid (snd (visited grid px py r x y s))"
  by (simp add: snd_visited)

lemma Compute_guarded: "guarded grid (snd (Compute_run v grid px py r))"
  by (rule Compute_run_preserves [where I = "\<lambda>s. guarded grid (snd s)"])
     (simp_all add: guarded_visited)

lemma guarded_IsOpaque_InBounds:
  "guarded grid qs \<Longrightarrow> AskIsOpaque x y \<in> set qs \<Longrightarrow> InBounds grid x y"
  by (induction grid qs rule: guarded.induct) auto

lemma View_reset: "(v :: View)\<lparr>Visible := X\<rparr> = \<lparr>Visible = X\<rparr>"
  by (cases v) simp

lemma fov_base: "r \<le> 0 \<Longrightarrow> fov grid px py 1 lowSlope highSlope oct r s = s"
  by (subst fov.simps) simp

subsection \<open>The bounded scan agrees with the scan\<close>

lemma fov_loop_fuel_unfold:
  "fov_loop_fuel m grid px py distance lowSlope highSlope oct rad height high inGap s =
     (if height \<le> high then
        (let mapx = fst (distHeightXY px py distance height oct);
             mapy = snd (distHeightXY px py distance height oct);
             s4 = visited grid px py rad mapx mapy s
         in if InBounds grid mapx mapy \<and> \<not> IsOpaque grid mapx mapy then
              (case (if inGap
                     then fov_fuel m grid px py (distance + 1) lowSlope
                            ((of_int height - 1 / 2) / of_int distance) oct rad s4
                     else Some s4) of
                 None \<Rightarrow> None
               | Some s5 \<Rightarrow>
                   fov_loop_fuel m grid px py distance ((of_int height + 1 / 2) / of_int distance)
                     highSlope oct rad (height + 1) high False s5)
            else
              (case (if height = high
                     then fov_fuel m grid px py (distance + 1) lowSlope highSlope oct rad s4
                     else Some s4) of
                 None \<Rightarrow> None
               | Some s5 \<Rightarrow>
                   fov_loop_fuel m grid px py distance lowSlope highSlope oct rad
                     (height + 1) high True s5))
      else Some s)"
  by (subst fov_loop_fuel.simps) (simp only: visited_def Let_def)

lemma fuel_suffices:
  shows "fov_fuel (nat (rad + 1 - distance)) grid px py distance lowSlope highSlope oct rad s =
           Some (fov grid px py distance lowSlope highSlope oct rad s)"
    and "distance \<le> rad \<Longrightarrow>
         fov_loop_fuel (nat (rad - distance)) grid px py distance lowSlope highSlope oct rad
           height high inGap s =
           Some (fov_loop grid px py distance lowSlope highSlope oct rad height high inGap s)"
proof (induction grid px py distance lowSlope highSlope oct rad s
         and grid px py distance lowSlope highSlope oct rad height high inGap s
       rule: fov_fov_loop.induct)
  case (1 grid px py distance lowSlope highSlope oct rad s)
  show ?case
  proof (cases "distance > rad")
    case True
    then have "nat (rad + 1 - distance) = 0" by simp
    with True show ?thesis by (simp add: fov_fuel.simps(1) fov.simps)
  next
    case False
    then have "nat (rad + 1 - distance) = Suc (nat (rad - distance))" by simp
    with False "1.IH" show ?thesis by (simp add: fov_fuel.simps(2) fov.simps [of _ _ _ distance])
  qed
next
  case (2 grid px py distance lowSlope highSlope oct rad height high inGap s)
  let ?x = "fst (distHeightXY px py distance height oct)"
  let ?y = "snd (distHeightXY px py distance height oct)"
  let ?s4 = "visited grid px py rad ?x ?y s"
  let ?m = "nat (rad - distance)"
  note dr = "2.prems"
  have m: "nat (rad + 1 - (distance + 1)) = ?m" by simp
  show ?case
  proof (cases "height \<le> high")
    case False
    then show ?thesis by (subst fov_loop_fuel_unfold) (simp add: fov_loop_done)
  next
    case le: True
    show ?thesis
    proof (cases "InBounds grid ?x ?y \<and> \<not> IsOpaque grid ?x ?y")
      case clear: True
      let ?hi = "(of_int height - 1 / 2) / of_int distance :: rat"
      let ?s5 = "if inGap then fov grid px py (distance + 1) lowSlope ?hi oct rad ?s4 else ?s4"
      have a: "inGap \<Longrightarrow> fov_fuel ?m grid px py (distance + 1) lowSlope ?hi oct rad ?s4 =
                 Some (fov grid px py (distance + 1) lowSlope ?hi oct rad ?s4)"
        using "2.IH"(1) [OF le refl refl refl refl refl refl clear] m
        unfolding visited_def Let_def by simp
      have b: "fov_loop_fuel ?m grid px py distance ((of_int height + 1 / 2) / of_int distance)
                 highSlope oct rad (height + 1) high False ?s5 =
               Some (fov_loop grid px py distance ((of_int height + 1 / 2) / of_int distance)
                 highSlope oct rad (height + 1) high False ?s5)"
        using "2.IH"(2) [OF le refl refl refl refl refl refl clear dr]
        unfolding visited_def Let_def by blast
      have c: "fov_loop_fuel ?m grid px py distance lowSlope highSlope oct rad height high inGap s
                 = (case (if inGap
                     then fov_fuel ?m grid px py (distance + 1) lowSlope ?hi oct rad ?s4
                     else Some ?s4) of
                 None \<Rightarrow> None
               | Some s5 \<Rightarrow>
                   fov_loop_fuel ?m grid px py distance
                     ((of_int height + 1 / 2) / of_int distance) highSlope oct rad
                     (height + 1) high False s5)"
        using le clear by (subst fov_loop_fuel_unfold) (simp add: Let_def)
      show ?thesis
        using a b unfolding c fov_loop_clear [OF le clear] by (cases inGap) simp_all
    next
      case blocked: False
      let ?s5 = "if height = high
                 then fov grid px py (distance + 1) lowSlope highSlope oct rad ?s4 else ?s4"
      have a: "height = high \<Longrightarrow>
                 fov_fuel ?m grid px py (distance + 1) lowSlope highSlope oct rad ?s4 =
                 Some (fov grid px py (distance + 1) lowSlope highSlope oct rad ?s4)"
        using "2.IH"(3) [OF le refl refl refl refl refl refl blocked] m
        unfolding visited_def Let_def by simp
      have b: "fov_loop_fuel ?m grid px py distance lowSlope highSlope oct rad (height + 1) high
                 True ?s5 =
               Some (fov_loop grid px py distance lowSlope highSlope oct rad (height + 1) high
                 True ?s5)"
        using "2.IH"(4) [OF le refl refl refl refl refl refl blocked dr]
        unfolding visited_def Let_def by blast
      have c: "fov_loop_fuel ?m grid px py distance lowSlope highSlope oct rad height high inGap s
                 = (case (if height = high
                     then fov_fuel ?m grid px py (distance + 1) lowSlope highSlope oct rad ?s4
                     else Some ?s4) of
                 None \<Rightarrow> None
               | Some s5 \<Rightarrow>
                   fov_loop_fuel ?m grid px py distance lowSlope highSlope oct rad
                     (height + 1) high True s5)"
        using le blocked by (subst fov_loop_fuel_unfold) (auto simp add: Let_def)
      show ?thesis
        using a b unfolding c fov_loop_blocked [OF le blocked] by (cases "height = high") simp_all
    qed
  qed
qed

lemma octants_fuel_suffices:
  "octants_fuel (nat r) grid px py r is s = Some (foldl (\<lambda>s i. fov grid px py 1 0 1 i r s) s is)"
proof (induction "is" arbitrary: s)
  case Nil
  show ?case by simp
next
  case (Cons i "is")
  have "fov_fuel (nat r) grid px py 1 0 1 i r s = Some (fov grid px py 1 0 1 i r s)"
    using fuel_suffices(1) [of r 1 grid px py 0 1 i s] by simp
  with Cons show ?case by simp
qed

subsection \<open>The octant transform\<close>

lemma and_exp_pos_iff_bit: "(k AND 2 ^ n > 0) = bit k n" for k :: int
proof -
  have "0 \<le> k AND 2 ^ n" by simp
  moreover have "k AND 2 ^ n = 0 \<longleftrightarrow> \<not> bit k n" by (rule and_exp_eq_0_iff_not_bit)
  ultimately show ?thesis by linarith
qed

lemma and_bits_pos:
  "(oct AND 1 > 0) = bit oct 0" "(oct AND 2 > 0) = bit oct 1" "(oct AND 4 > 0) = bit oct 2"
  for oct :: int
  using and_exp_pos_iff_bit [of oct 0] and_exp_pos_iff_bit [of oct 1]
    and_exp_pos_iff_bit [of oct 2]
  by simp_all

lemma octant_table:
  "distHeightXY px py d h 1 = (px - d, py + h)"
  "distHeightXY px py d h 2 = (px + d, py - h)"
  "distHeightXY px py d h 3 = (px - d, py - h)"
  "distHeightXY px py d h 4 = (px + h, py + d)"
  "distHeightXY px py d h 5 = (px + h, py - d)"
  "distHeightXY px py d h 6 = (px - h, py + d)"
  "distHeightXY px py d h 7 = (px - h, py - d)"
  "distHeightXY px py d h 8 = (px + d, py + h)"
  by (simp_all add: distHeightXY_def)

subsection \<open>The scan on a grid without bounds and without opaque cells\<close>

lemma first_band: "\<lfloor>(0::rat) * of_int 1 + 1 / 2\<rfloor> = 0" "\<lfloor>(1::rat) * of_int 1 + 1 / 2\<rfloor> = 1"
  by (simp_all add: floor_eq_iff)

lemma fov_open_octant:
  assumes inb: "\<And>x y. InBounds grid x y" and clr: "\<And>x y. \<not> IsOpaque grid x y"
    and r: "1 \<le> r"
  shows "fov grid px py 1 0 1 oct r s =
         visited grid px py r (fst (distHeightXY px py 1 1 oct)) (snd (distHeightXY px py 1 1 oct))
           (visited grid px py r (fst (distHeightXY px py 1 0 oct))
              (snd (distHeightXY px py 1 0 oct)) s)"
proof -
  have "fov grid px py 1 0 1 oct r s = fov_loop grid px py 1 0 1 oct r 0 1 False s"
    using r by (subst fov.simps) (simp only: first_band, simp)
  also have "\<dots> = fov_loop grid px py 1 ((of_int 0 + 1 / 2) / of_int 1) 1 oct r (0 + 1) 1 False
      (visited grid px py r (fst (distHeightXY px py 1 0 oct))
         (snd (distHeightXY px py 1 0 oct)) s)"
    by (subst fov_loop_clear) (simp_all add: inb clr)
  also have "\<dots> = fov_loop grid px py 1 ((of_int 1 + 1 / 2) / of_int 1) 1 oct r (1 + 1) 1 False
      (visited grid px py r (fst (distHeightXY px py 1 1 oct)) (snd (distHeightXY px py 1 1 oct))
        (visited grid px py r (fst (distHeightXY px py 1 0 oct))
           (snd (distHeightXY px py 1 0 oct)) s))"
    by (subst fov_loop_clear) (simp_all add: inb clr)
  also have "\<dots> = visited grid px py r (fst (distHeightXY px py 1 1 oct))
        (snd (distHeightXY px py 1 1 oct))
        (visited grid px py r (fst (distHeightXY px py 1 0 oct))
           (snd (distHeightXY px py 1 0 oct)) s)"
    by (simp add: fov_loop_done)
  finally show ?thesis .
qed

lemma isqrt_small: "isqrt 1 = 1" "isqrt 2 = 1" "isqrt 9 = 3"
  by code_simp+

lemma distTo_adjacent:
  assumes "\<bar>x - px\<bar> \<le> 1" "\<bar>y - py\<bar> \<le> 1" "(x, y) \<noteq> (px, py)"
  shows "distTo px py x y = 1"
proof -
  from assms have x: "px - x = -1 \<or> px - x = 0 \<or> px - x = 1"
    and y: "py - y = -1 \<or> py - y = 0 \<or> py - y = 1"
    and n: "px - x \<noteq> 0 \<or> py - y \<noteq> 0" by auto
  then have "(px - x)\<^sup>2 + (py - y)\<^sup>2 = 1 \<or> (px - x)\<^sup>2 + (py - y)\<^sup>2 = 2" by auto
  then show ?thesis
    by (auto simp add: distTo_def Let_def isqrt_small)
qed

lemma open_Visible:
  assumes inb: "\<And>x y. InBounds grid x y" and clr: "\<And>x y. \<not> IsOpaque grid x y"
    and r: "2 \<le> r"
  shows "Visible (fst (Compute_run v grid px py r)) =
     {Sprintf_d_comma_d px py,
      Sprintf_d_comma_d (px - 1) py, Sprintf_d_comma_d (px + 1) py,
      Sprintf_d_comma_d px (py - 1), Sprintf_d_comma_d px (py + 1),
      Sprintf_d_comma_d (px - 1) (py - 1), Sprintf_d_comma_d (px - 1) (py + 1),
      Sprintf_d_comma_d (px + 1) (py - 1), Sprintf_d_comma_d (px + 1) (py + 1)}"
proof -
  have r1: "1 \<le> r" using r by simp
  have d: "\<And>x y. \<bar>x - px\<bar> \<le> 1 \<Longrightarrow> \<bar>y - py\<bar> \<le> 1 \<Longrightarrow> (x, y) \<noteq> (px, py) \<Longrightarrow>
             distTo px py x y < r"
    using distTo_adjacent r by simp
  show ?thesis
    unfolding Compute_run_def
    by (simp add: fov_open_octant [OF inb clr r1] Visible_visited inb octant_table d) blast
qed


lemma open_adjacent_visible:
  assumes inb: "\<And>x y. InBounds grid x y" and clr: "\<And>x y. \<not> IsOpaque grid x y"
    and adj: "\<bar>x - px\<bar> \<le> 1" "\<bar>y - py\<bar> \<le> 1" and d: "distTo px py x y < r"
    and other: "(x, y) \<noteq> (px, py)"
  shows "IsVisible (Compute v grid px py r) x y"
proof -
  from distTo_adjacent [OF adj other] d have r: "2 \<le> r" by simp
  from adj have "x = px - 1 \<or> x = px \<or> x = px + 1" and "y = py - 1 \<or> y = py \<or> y = py + 1"
    by auto
  then have "Sprintf_d_comma_d x y \<in> Visible (fst (Compute_run v grid px py r))"
    unfolding open_Visible [OF inb clr r] by auto
  then show ?thesis by (simp add: IsVisible_def Compute_def)
qed

subsection \<open>The depth bound is attained\<close>

text \<open>
  On the grid whose cells are all opaque the scan of octant 8 with radius 3 needs all three
  frames.
\<close>

lemma fuel_bound_attained:
  "fov_fuel 2 solid_grid 3 3 1 0 1 8 3 (New, []) = None \<and>
   fov_fuel 3 solid_grid 3 3 1 0 1 8 3 (New, []) = Some (fov solid_grid 3 3 1 0 1 8 3 (New, []))"
  by code_simp

section \<open>The claims\<close>

text \<open>
  In the statements below \<open>Compute v grid px py r\<close> is the view after
  \<^verbatim>\<open>v.Compute(grid, px, py, r)\<close>, and \<open>Compute_run\<close> pairs it with the grid queries of that
  call. \<open>distTo px py x y\<close> is \<^verbatim>\<open>int(math.Sqrt(...))\<close> of the source
  (lemma \<open>distTo_floor_sqrt\<close>).
\<close>

text \<open>
  C1 (scenario B, single wall). On the 7 by 7 grid whose only opaque cell is (4,3), after
  \<^verbatim>\<open>Compute(grid, 3, 3, 3)\<close> the wall (4,3) is visible, (4,4) is visible and (6,3) is not
  visible, as specified; but (5,3), directly behind the wall, is visible, where the
  specification has it occluded. The condition of the source's second \<^verbatim>\<open>if\<close> tests
  \<^verbatim>\<open>!grid.IsOpaque\<close>, so the scan recurses behind opaque tiles and stops behind transparent
  ones, against the comments of that very branch. All slopes of this run (0, 1, 1/2, 1/4,
  3/4, 3/2) are exact in \<^verbatim>\<open>float64\<close>.
\<close>

theorem C1_wall_scenario:
  "IsVisible (Compute New (grid7 [(4, 3)]) 3 3 3) 4 3 \<and>
   IsVisible (Compute New (grid7 [(4, 3)]) 3 3 3) 5 3 \<and>
   \<not> IsVisible (Compute New (grid7 [(4, 3)]) 3 3 3) 6 3 \<and>
   IsVisible (Compute New (grid7 [(4, 3)]) 3 3 3) 4 4"
  by code_simp

text \<open>
  C2 (open field, radius truncation boundary). On the grid on which \<^verbatim>\<open>InBounds\<close> is true
  everywhere and \<^verbatim>\<open>IsOpaque\<close> false everywhere, after \<^verbatim>\<open>Compute(grid, 3, 3, 3)\<close> the cells
  (3,3) and (4,3) are visible and (6,3) is not, as specified; but (5,3), whose truncated
  distance 2 is below the radius, is not visible, where the specification has every cell
  with truncated distance below the radius visible. A transparent tile never sets
  \<^verbatim>\<open>inGap\<close>, because the second \<^verbatim>\<open>if\<close> of the source tests \<^verbatim>\<open>!grid.IsOpaque\<close>; so on this grid
  the scan makes no recursive call and stops at distance 1 (lemma \<open>open_Visible\<close>: for
  every radius from 2 on, the result is the observer's cell and its eight neighbours). The
  slopes of this run (0, 1, 1/2, 3/2) are exact in \<^verbatim>\<open>float64\<close>.
\<close>

theorem C2_open_field_scenario:
  "IsVisible (Compute New open_grid 3 3 3) 3 3 \<and>
   IsVisible (Compute New open_grid 3 3 3) 4 3 \<and>
   \<not> IsVisible (Compute New open_grid 3 3 3) 5 3 \<and> distTo 3 3 5 3 = 2 \<and>
   \<not> IsVisible (Compute New open_grid 3 3 3) 6 3 \<and> distTo 3 3 6 3 = 3"
  by code_simp

text \<open>
  C3 (containment to bounds), as amended. Every coordinate in the result set other than the
  observer's own cell satisfies \<^verbatim>\<open>InBounds\<close>. The observer's cell is inserted without a bounds
  check.
\<close>

theorem C3_marked_in_bounds:
  "IsVisible (Compute v grid px py r) x y \<Longrightarrow> (x, y) \<noteq> (px, py) \<Longrightarrow> InBounds grid x y"
  using visible_cases [of v grid px py r x y] by auto

theorem C3_marked_in_bounds_witness:
  "IsVisible (Compute New (grid7 [(4, 3)]) 3 3 3) 4 4 \<and> ((4, 4) :: int \<times> int) \<noteq> (3, 3) \<and>
   InBounds (grid7 [(4, 3)]) 4 4"
proof -
  have h: "IsVisible (Compute New (grid7 [(4, 3)]) 3 3 3) 4 4" by code_simp
  have n: "((4, 4) :: int \<times> int) \<noteq> (3, 3)" by simp
  from C3_marked_in_bounds [OF h n] h n show ?thesis by simp
qed

text \<open>
  On the grid with no cell in bounds the observer's cell (0,0) is in the result set although
  \<^verbatim>\<open>InBounds\<close> is false for it.
\<close>

theorem C3_observer_out_of_bounds:
  "IsVisible (Compute New void_grid 0 0 0) 0 0 \<and> \<not> InBounds void_grid 0 0"
  by code_simp

text \<open>
  C4 (self-visibility). Immediately after \<^verbatim>\<open>Compute(grid, px, py, r)\<close> the query
  \<^verbatim>\<open>IsVisible(px, py)\<close> returns true, for every grid, whatever the opacity of the observer's
  cell, and for every radius (so in particular for every radius \<open>r \<ge> 0\<close>).
\<close>

theorem C4_self_visibility: "IsVisible (Compute v grid px py r) px py"
  using observer_kept [of px py v grid r] by (simp add: IsVisible_def Compute_def)

text \<open>
  C5 (zero or negative radius). If the radius is zero or negative, each octant scan started by
  \<^verbatim>\<open>Compute\<close> (distance 1) returns at once in its base case, no grid query is made, and the
  result set holds exactly one cell, the observer's own.
\<close>

theorem C5_nonpositive_radius:
  "r \<le> 0 \<Longrightarrow>
     fov grid px py 1 0 1 oct r s = s \<and>
     Compute_run v grid px py r = (\<lparr>Visible = {Sprintf_d_comma_d px py}\<rparr>, []) \<and>
     (IsVisible (Compute v grid px py r) x y \<longleftrightarrow> x = px \<and> y = py)"
  by (simp add: fov_base Compute_def Compute_run_def IsVisible_def mark_def Sprintf_d_comma_d_inj
        View_reset)

theorem C5_nonpositive_radius_witness:
  "(0::int) \<le> 0 \<and>
   fov (grid7 [(4, 3)]) 3 3 1 0 1 5 0 (New, []) = (New, []) \<and>
   Compute_run New (grid7 [(4, 3)]) 3 3 0 = (\<lparr>Visible = {Sprintf_d_comma_d 3 3}\<rparr>, []) \<and>
   (IsVisible (Compute New (grid7 [(4, 3)]) 3 3 0) 3 4 \<longleftrightarrow> (3::int) = 3 \<and> (4::int) = 3)"
  using C5_nonpositive_radius [of 0 "grid7 [(4, 3)]" 3 3 5 "(New, [])" New 3 4] by simp

text \<open>
  C6 (idempotence). A second \<^verbatim>\<open>Compute\<close> with the same arguments leaves the result of the
  first unchanged, and the result does not depend on what the view held before: the set is
  replaced, not merged.
\<close>

theorem C6_compute_idempotent:
  "Compute (Compute v grid px py r) grid px py r = Compute v grid px py r \<and>
   Compute v grid px py r = Compute v' grid px py r"
  by (simp add: Compute_def Compute_run_def View_reset)

text \<open>
  C7 (termination). The scan is a total function (its termination proof uses that the
  distance grows by one with every recursive call and that the loop runs from \<open>low\<close> to
  \<open>high\<close>), and its recursion is no deeper than the radius: each octant scan of
  \<^verbatim>\<open>Compute\<close>, which starts at distance 1, completes within \<open>r\<close> frames, and so does
  \<^verbatim>\<open>Compute\<close>.
\<close>

theorem C7_scan_terminates:
  "fov_fuel (nat r) grid px py 1 0 1 oct r s = Some (fov grid px py 1 0 1 oct r s) \<and>
   Compute_run_fuel (nat r) v grid px py r = Some (Compute_run v grid px py r)"
proof -
  have "fov_fuel (nat r) grid px py 1 0 1 oct r s = Some (fov grid px py 1 0 1 oct r s)"
    using fuel_suffices(1) [of r 1 grid px py 0 1 oct s] by simp
  moreover have "Compute_run_fuel (nat r) v grid px py r = Some (Compute_run v grid px py r)"
    unfolding Compute_run_fuel_def Compute_run_def by (rule octants_fuel_suffices)
  ultimately show ?thesis by blast
qed

text \<open>
  C8 (bounds before opacity). In the log of the grid queries of a \<^verbatim>\<open>Compute\<close>, every
  \<^verbatim>\<open>IsOpaque\<close> query comes directly after an \<^verbatim>\<open>InBounds\<close> query on the same coordinate that
  returned true; so \<^verbatim>\<open>IsOpaque\<close> is never asked about a coordinate for which \<^verbatim>\<open>InBounds\<close>
  is false.
\<close>

theorem C8_opaque_guarded:
  "guarded grid (snd (Compute_run v grid px py r)) \<and>
   (AskIsOpaque x y \<in> set (snd (Compute_run v grid px py r)) \<longrightarrow> InBounds grid x y)"
  using Compute_guarded [of grid v px py r] guarded_IsOpaque_InBounds by blast

theorem C8_opaque_guarded_witness:
  "guarded (grid7 [(4, 3)]) (snd (Compute_run New (grid7 [(4, 3)]) 3 3 3)) \<and>
   AskIsOpaque 4 3 \<in> set (snd (Compute_run New (grid7 [(4, 3)]) 3 3 3)) \<and>
   InBounds (grid7 [(4, 3)]) 4 3"
proof -
  have h: "AskIsOpaque 4 3 \<in> set (snd (Compute_run New (grid7 [(4, 3)]) 3 3 3))"
    by code_simp
  with C8_opaque_guarded [of "grid7 [(4, 3)]" New 3 3 3 4 3] show ?thesis by blast
qed

text \<open>
  C9 (octant transform). \<^verbatim>\<open>distHeightXY\<close> is the function of the specification: bit 0 of the
  octant id negates the distance, bit 1 negates the height, and bit 2 makes the result
  \<open>(px + h, py + d)\<close> instead of \<open>(px + d, py + h)\<close>. This holds for every integer octant id,
  in particular for 1 to 8 (lemma \<open>octant_table\<close> lists those).
\<close>

theorem C9_octant_transform:
  "distHeightXY px py d h oct = octant_transform_spec px py d h oct"
  by (simp only: distHeightXY_def octant_transform_spec_def and_bits_pos)

text \<open>
  C10 (radius invariant on arbitrary grids). Every cell in the result set of a \<^verbatim>\<open>Compute\<close>
  other than the observer's own has truncated Euclidean distance from the observer strictly
  below the radius; so the radius is positive whenever such a cell exists.
\<close>

theorem C10_radius_invariant:
  "IsVisible (Compute v grid px py r) x y \<Longrightarrow> (x, y) \<noteq> (px, py) \<Longrightarrow>
     distTo px py x y < r \<and> \<lfloor>sqrt (real_of_int ((x - px)\<^sup>2 + (y - py)\<^sup>2))\<rfloor> < r \<and> 0 < r"
proof -
  assume vis: "IsVisible (Compute v grid px py r) x y" and other: "(x, y) \<noteq> (px, py)"
  from visible_cases [OF vis] other have d: "distTo px py x y < r" by auto
  have "0 \<le> distTo px py x y" by (simp add: distTo_def Let_def)
  with d have "0 < r" by linarith
  moreover have "distTo px py x y = \<lfloor>sqrt (real_of_int ((x - px)\<^sup>2 + (y - py)\<^sup>2))\<rfloor>"
    by (simp only: distTo_floor_sqrt power2_commute [of px x] power2_commute [of py y])
  ultimately show ?thesis using d by simp
qed

theorem C10_radius_invariant_witness:
  "IsVisible (Compute New (grid7 [(4, 3)]) 3 3 3) 5 4 \<and> ((5, 4) :: int \<times> int) \<noteq> (3, 3) \<and>
   distTo 3 3 5 4 < 3 \<and> \<lfloor>sqrt (real_of_int ((5 - 3)\<^sup>2 + (4 - 3)\<^sup>2))\<rfloor> < 3 \<and> (0::int) < 3"
proof -
  have h: "IsVisible (Compute New (grid7 [(4, 3)]) 3 3 3) 5 4" by code_simp
  have n: "((5, 4) :: int \<times> int) \<noteq> (3, 3)" by simp
  from C10_radius_invariant [OF h n] h n show ?thesis by simp
qed

end
